theory Spec2Isabelle
  imports Complex_Main "HOL-Library.Sublist"
begin

section \<open>Python values, exceptions and effects\<close>

text \<open>
  The monitor is one Python file, \<^verbatim>\<open>headset-notify.py\<close>. Its functions talk to the world
  through four calls: \<^verbatim>\<open>subprocess.run\<close> on \<^verbatim>\<open>headsetcontrol -b\<close>, \<^verbatim>\<open>subprocess.run\<close> on
  \<^verbatim>\<open>notify-send\<close>, \<^verbatim>\<open>psutil.cpu_percent\<close> and the clock (\<^verbatim>\<open>time.time\<close>, \<^verbatim>\<open>time.sleep\<close>).
  The two subprocess calls and the CPU sample may raise; the clock calls do not.
  An exception is a value: the handlers of the source tell
  \<^verbatim>\<open>subprocess.CalledProcessError\<close> from every other subclass of \<^verbatim>\<open>Exception\<close>, and
  print \<^verbatim>\<open>str(e)\<close>, so that is what an exception carries here. \<^verbatim>\<open>KeyboardInterrupt\<close> and
  \<^verbatim>\<open>SystemExit\<close> are not subclasses of \<^verbatim>\<open>Exception\<close>; they are the termination of the
  process from outside and are not modelled.
\<close>

datatype py_exception = CalledProcessError string | OtherException string

fun str_exception :: "py_exception \<Rightarrow> string" where
  "str_exception (CalledProcessError m) = m"
| "str_exception (OtherException m) = m"

datatype 'a outcome = Returns 'a | Raises py_exception

text \<open>
  What an observer sees of a run, in order: the status command being invoked, the
  notification command being invoked with a title and a body, a line of the log, and
  a call of \<^verbatim>\<open>time.sleep\<close>. Times are real numbers: the rounding of Python's floats is
  not modelled.
\<close>

datatype event =
    Probe
  | Notify string string
  | LogInfo string
  | LogError string
  | Sleep real

section \<open>Text\<close>

text \<open>
  A Python \<^verbatim>\<open>str\<close> is modelled as a \<^typ>\<open>string\<close>, each \<^typ>\<open>char\<close> one code point below 256.
  In that range \<^verbatim>\<open>str.isspace\<close> holds of twelve code points, the regular expression
  class \<^verbatim>\<open>\d\<close> holds of the ten ASCII digits, and \<^verbatim>\<open>.\<close> matches everything but the line feed.
\<close>

definition is_space :: "char \<Rightarrow> bool" where
  "is_space c = (of_char c \<in> {9, 10, 11, 12, 13, 28, 29, 30, 31, 32, 133, 160 :: nat})"

definition is_digit :: "char \<Rightarrow> bool" where
  "is_digit c = (48 \<le> (of_char c :: nat) \<and> (of_char c :: nat) \<le> 57)"

definition digit_value :: "char \<Rightarrow> int" where
  "digit_value c = int (of_char c) - 48"

definition line_feed :: char where
  "line_feed = CHR 0x0A"

definition apostrophe :: char where
  "apostrophe = CHR 0x27"

text \<open>\<^verbatim>\<open>s.strip()\<close>: the text without its leading and trailing whitespace.\<close>

definition py_strip :: "string \<Rightarrow> string" where
  "py_strip s = rev (dropWhile is_space (rev (dropWhile is_space s)))"

text \<open>\<^verbatim>\<open>str(n)\<close> of an integer, as an f-string prints it.\<close>

definition digit_char :: "nat \<Rightarrow> char" where
  "digit_char d = char_of (48 + d)"

function str_nat :: "nat \<Rightarrow> string" where
  "str_nat n = (if n < 10 then [digit_char n] else str_nat (n div 10) @ [digit_char (n mod 10)])"
  by pat_completeness auto
termination
  by (relation "measure (\<lambda>n. n)") auto

definition str_int :: "int \<Rightarrow> string" where
  "str_int i = (if i < 0 then CHR ''-'' # str_nat (nat (- i)) else str_nat (nat i))"

text \<open>
  \<^verbatim>\<open>int(ds)\<close> on a string of decimal digits, the only strings the prober passes to it (the
  group of \<^verbatim>\<open>\d+\<close>). CPython (3.11, and the security releases of 3.7 to 3.10) refuses
  a string of more digits than the interpreter's limit with a \<^verbatim>\<open>ValueError\<close>; the limit is
  4300 unless configured, 0 switches it off, and no string of at most 640 digits is ever
  refused. Leading zeros count. The limit is a parameter of the model.
\<close>

definition decimal_value :: "string \<Rightarrow> int" where
  "decimal_value ds = foldl (\<lambda>a c. 10 * a + digit_value c) 0 ds"

definition py_int :: "nat \<Rightarrow> string \<Rightarrow> int outcome" where
  "py_int max_str_digits ds =
     (if 640 < length ds \<and> 0 < max_str_digits \<and> max_str_digits < length ds
      then Raises (OtherException
             (''Exceeds the limit ('' @ str_nat max_str_digits
              @ '' digits) for integer string conversion: value has '' @ str_nat (length ds)
              @ '' digits; use sys.set_int_max_str_digits() to increase the limit''))
      else Returns (decimal_value ds))"

section \<open>The two regular expressions\<close>

text \<open>
  \<^verbatim>\<open>re.search(r"Found (.*?)!", s)\<close> tries every start position from the left. At one
  position the literal \<^verbatim>\<open>Found \<close> must be there; the lazy group then grows one character
  at a time, never over a line feed, until a \<^verbatim>\<open>!\<close> follows. \<open>lazy_until_bang\<close> is the
  group matched against the rest of the text, \<open>search_found\<close> the group of the leftmost
  match.
\<close>

fun lazy_until_bang :: "string \<Rightarrow> string option" where
  "lazy_until_bang [] = None"
| "lazy_until_bang (c # cs) =
     (if c = CHR ''!'' then Some []
      else if c = line_feed then None
      else map_option ((#) c) (lazy_until_bang cs))"

definition match_found_at :: "string \<Rightarrow> string option" where
  "match_found_at s =
     (if prefix ''Found '' s then lazy_until_bang (drop 6 s) else None)"

fun search_found :: "string \<Rightarrow> string option" where
  "search_found [] = None"
| "search_found (c # cs) =
     (case match_found_at (c # cs) of
        Some g \<Rightarrow> Some g
      | None \<Rightarrow> search_found cs)"

text \<open>
  \<^verbatim>\<open>re.search(r"Level: (\d+)%", s)\<close>: after the literal, the greedy group takes the whole
  run of digits; giving digits back cannot help, since the next character would then be a
  digit and not \<^verbatim>\<open>%\<close>.
\<close>

definition match_level_at :: "string \<Rightarrow> string option" where
  "match_level_at s =
     (if prefix ''Level: '' s
      then (let r = drop 7 s; ds = takeWhile is_digit r
            in if ds \<noteq> [] \<and> prefix ''%'' (dropWhile is_digit r) then Some ds else None)
      else None)"

fun search_level :: "string \<Rightarrow> string option" where
  "search_level [] = None"
| "search_level (c # cs) =
     (case match_level_at (c # cs) of
        Some g \<Rightarrow> Some g
      | None \<Rightarrow> search_level cs)"

section \<open>The status prober\<close>

record reading =
  device_name :: "string option"
  battery_level :: "int option"
  battery_available :: bool

definition no_reading :: reading where
  "no_reading = \<lparr>device_name = None, battery_level = None, battery_available = False\<rparr>"

text \<open>
  The two \<^verbatim>\<open>except\<close> clauses of \<^verbatim>\<open>check_headset\<close>: a \<^verbatim>\<open>CalledProcessError\<close> is swallowed,
  any other exception is logged; both give the reading \<^verbatim>\<open>(None, None, False)\<close>.
\<close>

fun probe_failed :: "py_exception \<Rightarrow> reading \<times> event list" where
  "probe_failed (CalledProcessError m) = (no_reading, [])"
| "probe_failed (OtherException m) =
     (no_reading, [LogError (''Error checking headset: '' @ m)])"

text \<open>
  \<^verbatim>\<open>check_headset()\<close>, given what \<^verbatim>\<open>subprocess.run\<close> does: it returns the captured standard
  output or raises. The result is the reading and the events of the call.
\<close>

definition parse_status :: "nat \<Rightarrow> string \<Rightarrow> reading outcome" where
  "parse_status max_str_digits stdout =
     (let output = py_strip stdout in
      case search_found output of
        None \<Rightarrow> Returns no_reading
      | Some name \<Rightarrow>
          (let available = sublist ''BATTERY_AVAILABLE'' output in
           case search_level output of
             None \<Rightarrow>
               Returns \<lparr>device_name = Some name, battery_level = None,
                        battery_available = available\<rparr>
           | Some ds \<Rightarrow>
               (case py_int max_str_digits ds of
                  Raises e \<Rightarrow> Raises e
                | Returns n \<Rightarrow>
                    Returns \<lparr>device_name = Some name, battery_level = Some n,
                             battery_available = available\<rparr>)))"

definition check_headset :: "nat \<Rightarrow> string outcome \<Rightarrow> reading \<times> event list" where
  "check_headset max_str_digits run =
     (case run of
        Raises e \<Rightarrow> (fst (probe_failed e), Probe # snd (probe_failed e))
      | Returns stdout \<Rightarrow>
          (case parse_status max_str_digits stdout of
             Raises e \<Rightarrow> (fst (probe_failed e), Probe # snd (probe_failed e))
           | Returns r \<Rightarrow> (r, [Probe])))"

section \<open>The notifier and the adaptive sleep\<close>

text \<open>
  \<^verbatim>\<open>send_notification(title, message)\<close>, given what \<^verbatim>\<open>subprocess.run\<close> on \<^verbatim>\<open>notify-send\<close>
  does. \<open>Notify\<close> is the invocation; when it raises, the handler logs and returns.
\<close>

definition send_notification :: "string \<Rightarrow> string \<Rightarrow> unit outcome \<Rightarrow> event list" where
  "send_notification title message run =
     (case run of
        Returns _ \<Rightarrow> [Notify title message]
      | Raises e \<Rightarrow>
          [Notify title message,
           LogError (''Error sending notification: '' @ str_exception e)])"

text \<open>
  \<^verbatim>\<open>adaptive_sleep()\<close>, given what \<^verbatim>\<open>psutil.cpu_percent(interval=None)\<close> does. Neither
  \<^verbatim>\<open>get_cpu_percent\<close> nor \<^verbatim>\<open>adaptive_sleep\<close> has a handler: an exception passes through.
\<close>

definition adaptive_sleep :: "real outcome \<Rightarrow> real outcome" where
  "adaptive_sleep sample =
     (case sample of
        Raises e \<Rightarrow> Raises e
      | Returns cpu_percent \<Rightarrow> Returns (if cpu_percent > 20 then 0.5 else 0.1))"

section \<open>The transition loop\<close>

record monitor_state =
  last_available :: bool
  last_device_name :: "string option"
  last_check :: real

definition initial_state :: monitor_state where
  "initial_state = \<lparr>last_available = False, last_device_name = None, last_check = 0\<rparr>"

definition min_time_between_checks :: real where
  "min_time_between_checks = 0.1"

text \<open>How the f-strings print a name or a level that may be \<^verbatim>\<open>None\<close>.\<close>

fun str_name :: "string option \<Rightarrow> string" where
  "str_name None = ''None''"
| "str_name (Some n) = n"

fun str_level :: "int option \<Rightarrow> string" where
  "str_level None = ''None''"
| "str_level (Some i) = str_int i"

definition turned_on_body :: "string option \<Rightarrow> int option \<Rightarrow> string" where
  "turned_on_body name level =
     ''Device: '' @ str_name name @ [line_feed] @ ''Battery: '' @ str_level level @ ''%''"

definition turned_off_body :: "string option \<Rightarrow> string" where
  "turned_off_body name =
     ''Device '' @ [apostrophe] @ str_name name @ [apostrophe] @ '' powered down''"

text \<open>The truth value of \<^verbatim>\<open>device_name\<close> in a condition: \<^verbatim>\<open>None\<close> and \<^verbatim>\<open>""\<close> are false.\<close>

fun truthy :: "string option \<Rightarrow> bool" where
  "truthy None = False"
| "truthy (Some n) = (n \<noteq> [])"

text \<open>
  Lines 128 to 139 of \<^verbatim>\<open>main\<close>: the \<^verbatim>\<open>if\<close>/\<^verbatim>\<open>elif\<close> that compares the reading with the state.
\<close>

definition transition ::
  "monitor_state \<Rightarrow> reading \<Rightarrow> unit outcome \<Rightarrow> monitor_state \<times> event list" where
  "transition s r run =
     (if \<not> last_available s \<and> battery_available r then
        (s\<lparr>last_available := True, last_device_name := device_name r\<rparr>,
         send_notification ''Headset Turned On''
           (turned_on_body (device_name r) (battery_level r)) run)
      else if last_available s \<and> \<not> battery_available r \<and> truthy (device_name r) then
        (s\<lparr>last_available := False\<rparr>,
         send_notification ''Headset Turned Off''
           (turned_off_body (last_device_name s)) run)
      else (s, []))"

text \<open>
  What the world does during one pass of the \<^verbatim>\<open>while\<close> loop: the value of \<^verbatim>\<open>time.time()\<close>,
  and the outcome of each external call, should the pass make it.
\<close>

record iter_env =
  clock :: real
  headsetcontrol :: "string outcome"
  notify_send :: "unit outcome"
  cpu_percent :: "real outcome"

datatype status = Running | Terminated py_exception

text \<open>
  Lines 144 and 145, after the \<^verbatim>\<open>try\<close> statement and outside it: an exception of
  \<^verbatim>\<open>adaptive_sleep()\<close> leaves \<^verbatim>\<open>main\<close>.
\<close>

definition sleep_adaptively ::
  "monitor_state \<Rightarrow> event list \<Rightarrow> real outcome \<Rightarrow> monitor_state \<times> event list \<times> status" where
  "sleep_adaptively s evs sample =
     (case adaptive_sleep sample of
        Raises e \<Rightarrow> (s, evs, Terminated e)
      | Returns sleep_time \<Rightarrow> (s, evs @ [Sleep sleep_time], Running))"

text \<open>
  One pass of the loop. Every call inside the \<^verbatim>\<open>try\<close> block returns: the clock does not
  raise, and \<^verbatim>\<open>check_headset\<close> and \<^verbatim>\<open>send_notification\<close> handle every \<^verbatim>\<open>Exception\<close>
  themselves. So the handler of lines 141 and 142 has nothing to catch, and the block
  either falls through to the adaptive sleep or, rate limited, takes the \<^verbatim>\<open>continue\<close>.
\<close>

definition iteration ::
  "nat \<Rightarrow> monitor_state \<Rightarrow> iter_env \<Rightarrow> monitor_state \<times> event list \<times> status" where
  "iteration max_str_digits s env =
     (let current_time = clock env in
      if current_time - last_check s < min_time_between_checks then
        (s, [Sleep 0.01], Running)
      else
        (let (r, probe_events) = check_headset max_str_digits (headsetcontrol env);
             s1 = s\<lparr>last_check := current_time\<rparr>;
             (s2, notify_events) = transition s1 r (notify_send env)
         in sleep_adaptively s2 (probe_events @ notify_events) (cpu_percent env)))"

text \<open>
  \<^verbatim>\<open>while True\<close>, run on the passes that a list of environments describes: the loop has
  no exit of its own, so a run over any finite prefix ends \<open>Running\<close> unless an
  exception left \<^verbatim>\<open>main\<close>, and then the remaining passes do not happen.
\<close>

fun main_loop ::
  "nat \<Rightarrow> monitor_state \<Rightarrow> iter_env list \<Rightarrow> monitor_state \<times> event list \<times> status" where
  "main_loop max_str_digits s [] = (s, [], Running)"
| "main_loop max_str_digits s (env # envs) =
     (case iteration max_str_digits s env of
        (s', evs, Terminated e) \<Rightarrow> (s', evs, Terminated e)
      | (s', evs, Running) \<Rightarrow>
          (case main_loop max_str_digits s' envs of
             (s'', evs', st) \<Rightarrow> (s'', evs @ evs', st)))"

definition main :: "nat \<Rightarrow> iter_env list \<Rightarrow> monitor_state \<times> event list \<times> status" where
  "main max_str_digits envs =
     (case main_loop max_str_digits initial_state envs of
        (s, evs, st) \<Rightarrow> (s, LogInfo ''Starting wireless headset monitor...'' # evs, st))"

section \<open>Notions used by the properties\<close>

text \<open>A battery level that is absent or a percentage.\<close>

definition in_percent_range :: "int option \<Rightarrow> bool" where
  "in_percent_range l = (case l of None \<Rightarrow> True | Some n \<Rightarrow> 0 \<le> n \<and> n \<le> 100)"

definition not_negative :: "int option \<Rightarrow> bool" where
  "not_negative l = (case l of None \<Rightarrow> True | Some n \<Rightarrow> 0 \<le> n)"

text \<open>The notification commands among the events of a run, and the number of probes.\<close>

fun is_notification :: "event \<Rightarrow> bool" where
  "is_notification (Notify title body) = True"
| "is_notification e = False"

definition notifications :: "event list \<Rightarrow> event list" where
  "notifications evs = filter is_notification evs"

definition probe_count :: "event list \<Rightarrow> nat" where
  "probe_count evs = length (filter (\<lambda>e. e = Probe) evs)"

text \<open>
  \<open>first_at p s i\<close>: the text \<open>p\<close> occurs in \<open>s\<close> at position \<open>i\<close> and at no earlier
  position.
\<close>

definition first_at :: "string \<Rightarrow> string \<Rightarrow> nat \<Rightarrow> bool" where
  "first_at p s i = (prefix p (drop i s) \<and> (\<forall>j<i. \<not> prefix p (drop j s)))"

text \<open>
  \<open>alternating on name ns\<close>: the notifications \<open>ns\<close> take turns, beginning with
  \<^verbatim>\<open>Headset Turned Off\<close> for \<open>name\<close> when \<open>on\<close> holds and with \<^verbatim>\<open>Headset Turned On\<close>
  otherwise, and every \<^verbatim>\<open>Headset Turned Off\<close> is for the name of the
  \<^verbatim>\<open>Headset Turned On\<close> before it.
\<close>

fun alternating :: "bool \<Rightarrow> string option \<Rightarrow> event list \<Rightarrow> bool" where
  "alternating on name [] = True"
| "alternating on name (e # es) =
     (if on
      then e = Notify ''Headset Turned Off'' (turned_off_body name)
           \<and> alternating False name es
      else (\<exists>name' level. e = Notify ''Headset Turned On'' (turned_on_body name' level)
           \<and> alternating True name' es))"

section \<open>What the two searches find\<close>

lemma lazy_until_bang_sound:
  "lazy_until_bang s = Some g \<Longrightarrow>
     \<exists>post. s = g @ ''!'' @ post \<and> CHR ''!'' \<notin> set g \<and> line_feed \<notin> set g"
proof (induction s arbitrary: g)
  case Nil
  then show ?case by simp
next
  case (Cons c cs)
  show ?case
  proof (cases "c = CHR ''!''")
    case True
    with Cons.prems show ?thesis by simp
  next
    case False
    with Cons.prems obtain g' where
      g': "lazy_until_bang cs = Some g'" "g = c # g'" "c \<noteq> line_feed"
      by (auto split: if_splits)
    from Cons.IH [OF g'(1)] False g'(2,3) show ?thesis by auto
  qed
qed

lemma match_found_at_sound:
  assumes "match_found_at s = Some g"
  shows "\<exists>post. s = ''Found '' @ g @ ''!'' @ post \<and> CHR ''!'' \<notin> set g \<and> line_feed \<notin> set g"
proof -
  from assms have p: "prefix ''Found '' s" and l: "lazy_until_bang (drop 6 s) = Some g"
    by (auto simp: match_found_at_def split: if_splits)
  from p obtain r where r: "s = ''Found '' @ r" by (auto simp: prefix_def)
  with l have "lazy_until_bang r = Some g" by simp
  from lazy_until_bang_sound [OF this] r show ?thesis by auto
qed

lemma search_found_sound:
  "search_found s = Some g \<Longrightarrow>
     \<exists>pre post. s = pre @ ''Found '' @ g @ ''!'' @ post
        \<and> CHR ''!'' \<notin> set g \<and> line_feed \<notin> set g"
proof (induction s)
  case Nil
  then show ?case by simp
next
  case (Cons c cs)
  show ?case
  proof (cases "match_found_at (c # cs)")
    case None
    with Cons.prems have "search_found cs = Some g" by simp
    from Cons.IH [OF this] obtain pre post where
      "cs = pre @ ''Found '' @ g @ ''!'' @ post" "CHR ''!'' \<notin> set g" "line_feed \<notin> set g"
      by blast
    then have "c # cs = (c # pre) @ ''Found '' @ g @ ''!'' @ post
        \<and> CHR ''!'' \<notin> set g \<and> line_feed \<notin> set g"
      by simp
    then show ?thesis by blast
  next
    case (Some h)
    with Cons.prems have "h = g" by simp
    with Some match_found_at_sound [of "c # cs" g] obtain post where
      "c # cs = [] @ ''Found '' @ g @ ''!'' @ post
        \<and> CHR ''!'' \<notin> set g \<and> line_feed \<notin> set g"
      by auto
    then show ?thesis by blast
  qed
qed

text \<open>Stripping cuts whitespace off both ends and nothing else.\<close>

lemma py_strip_decomp:
  "s = takeWhile is_space s @ py_strip s
        @ rev (takeWhile is_space (rev (dropWhile is_space s)))"
proof -
  have "rev (dropWhile is_space s)
      = takeWhile is_space (rev (dropWhile is_space s))
        @ dropWhile is_space (rev (dropWhile is_space s))"
    by simp
  then have "dropWhile is_space s
      = py_strip s @ rev (takeWhile is_space (rev (dropWhile is_space s)))"
    unfolding py_strip_def by (metis rev_append rev_rev_ident)
  then show ?thesis by (metis takeWhile_dropWhile_id)
qed

lemma check_headset_no_device:
  "search_found (py_strip out) = None \<Longrightarrow>
     check_headset m (Returns out) = (no_reading, [Probe])"
  by (simp add: check_headset_def parse_status_def)

lemma probe_failed_reading: "fst (probe_failed e) = no_reading"
  by (cases e) simp_all

section \<open>Properties of the prober\<close>

text \<open>
  C4. When the output of the status command has no substring of the form
  \<^verbatim>\<open>Found <name>!\<close>, whatever else it holds, the prober returns \<^verbatim>\<open>(None, None, False)\<close>
  (and has invoked the status command once, logging nothing).
\<close>

theorem probe_without_found:
  assumes "\<not> (\<exists>pre name post. out = pre @ ''Found '' @ name @ ''!'' @ post)"
  shows "check_headset m (Returns out) = (no_reading, [Probe])"
proof (rule check_headset_no_device)
  show "search_found (py_strip out) = None"
  proof (rule ccontr)
    assume "search_found (py_strip out) \<noteq> None"
    then obtain g where "search_found (py_strip out) = Some g" by auto
    from search_found_sound [OF this] obtain pre post where
      s: "py_strip out = pre @ ''Found '' @ g @ ''!'' @ post" by blast
    obtain l r where "out = l @ py_strip out @ r" using py_strip_decomp by blast
    with s have "out = (l @ pre) @ ''Found '' @ g @ ''!'' @ (post @ r)" by simp
    with assms show False by blast
  qed
qed

theorem probe_without_found_witness:
  "\<not> (\<exists>pre name post.
        ''No supported device found'' = pre @ ''Found '' @ name @ ''!'' @ post)
   \<and> check_headset 4300 (Returns ''No supported device found'') = (no_reading, [Probe])"
proof -
  have h: "\<not> (\<exists>pre name post.
        ''No supported device found'' = pre @ ''Found '' @ name @ ''!'' @ post)"
  proof
    assume "\<exists>pre name post.
        ''No supported device found'' = pre @ ''Found '' @ name @ ''!'' @ post"
    then obtain pre name post where
      "''No supported device found'' = pre @ ''Found '' @ name @ ''!'' @ post"
      by blast
    then have "set ''No supported device found''
        = set (pre @ ''Found '' @ name @ ''!'' @ post)"
      by simp
    then have "CHR ''!'' \<in> set ''No supported device found''" by simp
    then show False by simp
  qed
  from h probe_without_found [OF h, of 4300] show ?thesis by simp
qed

text \<open>
  C9. Whatever the status command does, a reading of the prober with
  \<open>battery_available\<close> true has a device name: the search for the device comes first, and
  every failure gives \<^verbatim>\<open>(None, None, False)\<close>.
\<close>

theorem available_implies_named:
  "battery_available (fst (check_headset m run)) \<Longrightarrow>
     device_name (fst (check_headset m run)) \<noteq> None"
  by (auto simp: check_headset_def parse_status_def probe_failed_reading no_reading_def Let_def
           split: outcome.splits option.splits)

theorem available_implies_named_witness:
  "battery_available (fst (check_headset 4300 (Returns ''Found X! BATTERY_AVAILABLE'')))
   \<and> device_name (fst (check_headset 4300 (Returns ''Found X! BATTERY_AVAILABLE''))) \<noteq> None"
proof -
  have h: "battery_available (fst (check_headset 4300 (Returns ''Found X! BATTERY_AVAILABLE'')))"
    by code_simp
  from h available_implies_named [OF h] show ?thesis by simp
qed

text \<open>The group of the level pattern is a run of digits, and its value is not negative.\<close>

lemma search_level_digits:
  "search_level s = Some ds \<Longrightarrow> ds \<noteq> [] \<and> (\<forall>c\<in>set ds. is_digit c)"
proof (induction s)
  case Nil
  then show ?case by simp
next
  case (Cons c cs)
  show ?case
  proof (cases "match_level_at (c # cs)")
    case None
    with Cons show ?thesis by simp
  next
    case (Some h)
    with Cons.prems have "h = ds" by simp
    with Some have "ds \<noteq> []" and "ds = takeWhile is_digit (drop 7 (c # cs))"
      by (auto simp: match_level_at_def Let_def split: if_splits)
    then show ?thesis by (metis set_takeWhileD)
  qed
qed

lemma decimal_fold_nonneg:
  "\<forall>c\<in>set ds. is_digit c \<Longrightarrow> 0 \<le> a \<Longrightarrow>
     0 \<le> foldl (\<lambda>a c. 10 * a + digit_value c) a ds"
proof (induction ds arbitrary: a)
  case Nil
  then show ?case by simp
next
  case (Cons d ds)
  from Cons.prems have "0 \<le> 10 * a + digit_value d"
    by (simp add: is_digit_def digit_value_def)
  with Cons show ?case by simp
qed

lemma parse_status_level:
  "parse_status m out = Returns r \<Longrightarrow> not_negative (battery_level r)"
  by (auto simp: parse_status_def Let_def no_reading_def not_negative_def py_int_def
        decimal_value_def
        dest!: search_level_digits intro: decimal_fold_nonneg
        split: option.splits outcome.splits if_splits)

text \<open>
  C5, as the code has it. Whatever the status command does, the battery level of the
  reading is \<^verbatim>\<open>None\<close> or an integer that is not negative: the decimal value of the digits
  between \<^verbatim>\<open>Level: \<close> and \<^verbatim>\<open>%\<close>. Nothing bounds it by 100.
\<close>

theorem level_not_negative: "not_negative (battery_level (fst (check_headset m run)))"
proof (cases run)
  case (Returns out)
  show ?thesis
  proof (cases "parse_status m out")
    case (Returns r)
    with parse_status_level [OF this] \<open>run = Returns out\<close> show ?thesis
      by (simp add: check_headset_def)
  next
    case (Raises e)
    with \<open>run = Returns out\<close> show ?thesis
      by (simp add: check_headset_def probe_failed_reading no_reading_def not_negative_def)
  qed
next
  case (Raises e)
  then show ?thesis
    by (simp add: check_headset_def probe_failed_reading no_reading_def not_negative_def)
qed

text \<open>
  C5 as stated fails: on an output that reports \<^verbatim>\<open>Level: 150%\<close> the reading has the
  battery level 150.
\<close>

theorem level_above_100:
  "\<not> in_percent_range (battery_level (fst (check_headset 4300
      (Returns ''Found X! BATTERY_AVAILABLE Level: 150%''))))"
  by code_simp

section \<open>Properties of the adaptive sleep\<close>

text \<open>
  C8. For a sampled CPU utilisation above 20 the adaptive sleep is 0.5 seconds; for any
  other, exactly 20 included, it is 0.1 seconds.
\<close>

theorem adaptive_sleep_policy:
  "(20 < cpu \<longrightarrow> adaptive_sleep (Returns cpu) = Returns 0.5)
   \<and> (cpu \<le> 20 \<longrightarrow> adaptive_sleep (Returns cpu) = Returns 0.1)
   \<and> adaptive_sleep (Returns 20) = Returns 0.1"
  by (simp add: adaptive_sleep_def)

theorem adaptive_sleep_policy_witness:
  "(20::real) < 25 \<and> adaptive_sleep (Returns 25) = Returns 0.5
   \<and> (10::real) \<le> 20 \<and> adaptive_sleep (Returns 10) = Returns 0.1"
  using adaptive_sleep_policy [of 25] adaptive_sleep_policy [of 10] by simp

section \<open>Facts about one pass of the loop\<close>

lemma notifications_append: "notifications (a @ b) = notifications a @ notifications b"
  by (simp add: notifications_def)

lemma notifications_Nil: "notifications [] = []"
  by (simp add: notifications_def)

lemma probe_count_Nil: "probe_count [] = 0"
  by (simp add: probe_count_def)

lemma probe_count_append: "probe_count (a @ b) = probe_count a + probe_count b"
  by (simp add: probe_count_def)

lemma probe_failed_events:
  "notifications (snd (probe_failed e)) = []" "probe_count (snd (probe_failed e)) = 0"
  by (cases e; simp add: notifications_def probe_count_def)+

lemma check_headset_events:
  "notifications (snd (check_headset m run)) = []" "probe_count (snd (check_headset m run)) = 1"
  by (auto simp: check_headset_def notifications_def probe_count_def
        probe_failed_events [unfolded notifications_def probe_count_def]
        split: outcome.splits)

lemma send_notification_events:
  "notifications (send_notification t b run) = [Notify t b]"
  "probe_count (send_notification t b run) = 0"
  by (auto simp: send_notification_def notifications_def probe_count_def split: outcome.splits)

lemma transition_probe_count: "probe_count (snd (transition s r run)) = 0"
  by (simp add: transition_def send_notification_events probe_count_Nil)

lemma transition_last_check: "last_check (fst (transition s r run)) = last_check s"
  by (simp add: transition_def)

lemma sleep_adaptively_result:
  "fst (sleep_adaptively s evs sample) = s"
  "notifications (fst (snd (sleep_adaptively s evs sample))) = notifications evs"
  "probe_count (fst (snd (sleep_adaptively s evs sample))) = probe_count evs"
  by (auto simp: sleep_adaptively_def adaptive_sleep_def notifications_def probe_count_def
        split: outcome.splits)

lemma iteration_limited:
  "clock env - last_check s < min_time_between_checks \<Longrightarrow>
     iteration m s env = (s, [Sleep 0.01], Running)"
  by (simp add: iteration_def)

lemma iteration_fresh:
  "\<not> clock env - last_check s < min_time_between_checks \<Longrightarrow>
     iteration m s env =
       sleep_adaptively
         (fst (transition (s\<lparr>last_check := clock env\<rparr>)
                 (fst (check_headset m (headsetcontrol env))) (notify_send env)))
         (snd (check_headset m (headsetcontrol env))
          @ snd (transition (s\<lparr>last_check := clock env\<rparr>)
                 (fst (check_headset m (headsetcontrol env))) (notify_send env)))
         (cpu_percent env)"
  by (simp add: iteration_def Let_def split_beta)

lemma iteration_fresh_state:
  "\<not> clock env - last_check s < min_time_between_checks \<Longrightarrow>
     fst (iteration m s env) =
       fst (transition (s\<lparr>last_check := clock env\<rparr>)
              (fst (check_headset m (headsetcontrol env))) (notify_send env))"
  by (simp add: iteration_fresh sleep_adaptively_result)

lemma iteration_fresh_notifications:
  "\<not> clock env - last_check s < min_time_between_checks \<Longrightarrow>
     notifications (fst (snd (iteration m s env))) =
       notifications (snd (transition (s\<lparr>last_check := clock env\<rparr>)
              (fst (check_headset m (headsetcontrol env))) (notify_send env)))"
  by (simp add: iteration_fresh sleep_adaptively_result notifications_append check_headset_events)

section \<open>Properties of the transitions\<close>

text \<open>
  C1, as the code has it. In a pass that probes, with the state CONNECTED and a reading
  whose \<open>battery_available\<close> is false: exactly when the reading's device name is
  present and not the empty string (the condition tests its truth value), the one
  notification of the pass is \<^verbatim>\<open>Headset Turned Off\<close> naming \<open>last_device_name\<close> and the state
  becomes DISCONNECTED; when the name is \<^verbatim>\<open>None\<close> or empty, the pass sends no notification
  and the state stays CONNECTED.
\<close>

theorem disconnect_needs_name:
  assumes "last_available s"
    and "\<not> clock env - last_check s < min_time_between_checks"
    and "\<not> battery_available (fst (check_headset m (headsetcontrol env)))"
  shows "(truthy (device_name (fst (check_headset m (headsetcontrol env)))) \<longrightarrow>
            notifications (fst (snd (iteration m s env)))
              = [Notify ''Headset Turned Off'' (turned_off_body (last_device_name s))]
            \<and> \<not> last_available (fst (iteration m s env)))
       \<and> (\<not> truthy (device_name (fst (check_headset m (headsetcontrol env)))) \<longrightarrow>
            notifications (fst (snd (iteration m s env))) = []
            \<and> last_available (fst (iteration m s env)))"
  using assms
  by (simp add: iteration_fresh_state iteration_fresh_notifications transition_def
        send_notification_events notifications_Nil)

theorem disconnect_needs_name_witness:
  "notifications (fst (snd (iteration 4300
       \<lparr>last_available = True, last_device_name = Some ''HyperX Cloud'', last_check = 0\<rparr>
       \<lparr>clock = 1, headsetcontrol = Returns ''Found HyperX Cloud!'', notify_send = Returns (),
        cpu_percent = Returns 10\<rparr>)))
     = [Notify ''Headset Turned Off'' (turned_off_body (Some ''HyperX Cloud''))]
   \<and> notifications (fst (snd (iteration 4300
       \<lparr>last_available = True, last_device_name = Some ''HyperX Cloud'', last_check = 0\<rparr>
       \<lparr>clock = 1, headsetcontrol = Returns ''No device'', notify_send = Returns (),
        cpu_percent = Returns 10\<rparr>))) = []"
proof -
  let ?s = "\<lparr>last_available = True, last_device_name = Some ''HyperX Cloud'', last_check = 0\<rparr>"
  let ?e1 = "\<lparr>clock = 1, headsetcontrol = Returns ''Found HyperX Cloud!'',
        notify_send = Returns (), cpu_percent = Returns 10\<rparr>"
  let ?e2 = "\<lparr>clock = 1, headsetcontrol = Returns ''No device'',
        notify_send = Returns (), cpu_percent = Returns 10\<rparr>"
  have a: "last_available ?s" by simp
  have b1: "\<not> clock ?e1 - last_check ?s < min_time_between_checks"
    by (simp add: min_time_between_checks_def)
  have b2: "\<not> clock ?e2 - last_check ?s < min_time_between_checks"
    by (simp add: min_time_between_checks_def)
  have c1: "fst (check_headset 4300 (headsetcontrol ?e1))
      = \<lparr>device_name = Some ''HyperX Cloud'', battery_level = None, battery_available = False\<rparr>"
    by code_simp
  have c2: "fst (check_headset 4300 (headsetcontrol ?e2)) = no_reading"
    by code_simp
  from disconnect_needs_name [OF a b1, of 4300] c1
    disconnect_needs_name [OF a b2, of 4300] c2
  show ?thesis by (simp add: no_reading_def)
qed

text \<open>
  C1 as stated fails for a name that is present but empty: the status output \<^verbatim>\<open>Found !\<close>
  gives the reading \<^verbatim>\<open>("", None, False)\<close>, whose name is not \<^verbatim>\<open>None\<close>, and the pass sends
  nothing and stays CONNECTED.
\<close>

theorem disconnect_empty_name:
  "device_name (fst (check_headset 4300 (Returns ''Found !''))) \<noteq> None
   \<and> \<not> battery_available (fst (check_headset 4300 (Returns ''Found !'')))
   \<and> iteration 4300
       \<lparr>last_available = True, last_device_name = Some ''X'', last_check = 0\<rparr>
       \<lparr>clock = 1, headsetcontrol = Returns ''Found !'', notify_send = Returns (),
        cpu_percent = Returns 10\<rparr>
     = (\<lparr>last_available = True, last_device_name = Some ''X'', last_check = 1\<rparr>,
        [Probe, Sleep 0.1], Running)"
  by code_simp

lemma transition_connected:
  "last_available s \<Longrightarrow> battery_available r \<Longrightarrow> transition s r run = (s, [])"
  by (simp add: transition_def)

lemma transition_connect:
  "\<not> last_available s \<Longrightarrow> battery_available r \<Longrightarrow>
     transition s r run =
       (s\<lparr>last_available := True, last_device_name := device_name r\<rparr>,
        send_notification ''Headset Turned On''
          (turned_on_body (device_name r) (battery_level r)) run)"
  by (simp add: transition_def)

lemma main_loop_two:
  "main_loop m s [e1, e2] =
     (case iteration m s e1 of
        (s', evs, Terminated e) \<Rightarrow> (s', evs, Terminated e)
      | (s', evs, Running) \<Rightarrow>
          (fst (iteration m s' e2), evs @ fst (snd (iteration m s' e2)),
           snd (snd (iteration m s' e2))))"
  by (auto split: prod.splits status.splits)

text \<open>
  C6. From DISCONNECTED, two passes in a row that both probe and both read
  \<open>battery_available\<close> true send exactly one notification, the \<^verbatim>\<open>Headset Turned On\<close> of the
  first reading. Once CONNECTED, a reading with \<open>battery_available\<close> true leaves the
  state as it is and sends nothing; of the whole pass, only the time of the last probe
  moves on.
\<close>

theorem connect_notifies_once:
  "(\<not> last_available s
      \<and> \<not> clock e1 - last_check s < min_time_between_checks
      \<and> \<not> clock e2 - clock e1 < min_time_between_checks
      \<and> battery_available (fst (check_headset m (headsetcontrol e1)))
      \<and> battery_available (fst (check_headset m (headsetcontrol e2)))
    \<longrightarrow> notifications (fst (snd (main_loop m s [e1, e2])))
        = [Notify ''Headset Turned On''
            (turned_on_body (device_name (fst (check_headset m (headsetcontrol e1))))
               (battery_level (fst (check_headset m (headsetcontrol e1)))))])
   \<and> (last_available s' \<and> battery_available r \<longrightarrow> transition s' r run = (s', []))
   \<and> (last_available s'
      \<and> \<not> clock env - last_check s' < min_time_between_checks
      \<and> battery_available (fst (check_headset m (headsetcontrol env)))
    \<longrightarrow> notifications (fst (snd (iteration m s' env))) = []
        \<and> fst (iteration m s' env) = s'\<lparr>last_check := clock env\<rparr>)"
proof (intro conjI impI)
  assume a: "last_available s' \<and> battery_available r"
  then show "transition s' r run = (s', [])" by (simp add: transition_connected)
next
  assume a: "last_available s'
      \<and> \<not> clock env - last_check s' < min_time_between_checks
      \<and> battery_available (fst (check_headset m (headsetcontrol env)))"
  then show "notifications (fst (snd (iteration m s' env))) = []"
    by (simp add: iteration_fresh_notifications transition_connected notifications_Nil)
  from a show "fst (iteration m s' env) = s'\<lparr>last_check := clock env\<rparr>"
    by (simp add: iteration_fresh_state transition_connected)
next
  assume a: "\<not> last_available s
      \<and> \<not> clock e1 - last_check s < min_time_between_checks
      \<and> \<not> clock e2 - clock e1 < min_time_between_checks
      \<and> battery_available (fst (check_headset m (headsetcontrol e1)))
      \<and> battery_available (fst (check_headset m (headsetcontrol e2)))"
  let ?r1 = "fst (check_headset m (headsetcontrol e1))"
  let ?on = "Notify ''Headset Turned On'' (turned_on_body (device_name ?r1) (battery_level ?r1))"
  let ?s1 = "fst (iteration m s e1)"
  from a have s1: "?s1 = s\<lparr>last_check := clock e1, last_available := True,
      last_device_name := device_name ?r1\<rparr>"
    by (simp add: iteration_fresh_state transition_connect)
  from a have n1: "notifications (fst (snd (iteration m s e1))) = [?on]"
    by (simp add: iteration_fresh_notifications transition_connect send_notification_events)
  from a s1 have n2: "notifications (fst (snd (iteration m ?s1 e2))) = []"
    by (simp add: iteration_fresh_notifications transition_connected notifications_Nil)
  show "notifications (fst (snd (main_loop m s [e1, e2]))) = [?on]"
  proof (cases "iteration m s e1")
    case (fields s1' evs st)
    with n1 n2 show ?thesis
      by (cases st) (simp_all add: main_loop_two notifications_append del: main_loop.simps)
  qed
qed

theorem connect_notifies_once_witness:
  "notifications (fst (snd (main_loop 4300 initial_state
      [\<lparr>clock = 1, headsetcontrol = Returns ''Found HyperX Cloud! BATTERY_AVAILABLE Level: 80%'',
        notify_send = Returns (), cpu_percent = Returns 10\<rparr>,
       \<lparr>clock = 2, headsetcontrol = Returns ''Found HyperX Cloud! BATTERY_AVAILABLE Level: 79%'',
        notify_send = Returns (), cpu_percent = Returns 10\<rparr>])))
     = [Notify ''Headset Turned On''
          (turned_on_body (Some ''HyperX Cloud'') (Some 80))]
   \<and> transition \<lparr>last_available = True, last_device_name = Some ''HyperX Cloud'', last_check = 1\<rparr>
        \<lparr>device_name = Some ''HyperX Cloud'', battery_level = Some 79, battery_available = True\<rparr>
        (Returns ())
     = (\<lparr>last_available = True, last_device_name = Some ''HyperX Cloud'', last_check = 1\<rparr>, [])"
proof -
  let ?e1 = "\<lparr>clock = 1, headsetcontrol = Returns ''Found HyperX Cloud! BATTERY_AVAILABLE Level: 80%'',
        notify_send = Returns (), cpu_percent = Returns 10\<rparr>"
  let ?e2 = "\<lparr>clock = 2, headsetcontrol = Returns ''Found HyperX Cloud! BATTERY_AVAILABLE Level: 79%'',
        notify_send = Returns (), cpu_percent = Returns 10\<rparr>"
  let ?s = "\<lparr>last_available = True, last_device_name = Some ''HyperX Cloud'', last_check = 1\<rparr>"
  let ?r = "\<lparr>device_name = Some ''HyperX Cloud'', battery_level = Some 79, battery_available = True\<rparr>"
  have c1: "fst (check_headset 4300 (headsetcontrol ?e1))
      = \<lparr>device_name = Some ''HyperX Cloud'', battery_level = Some 80, battery_available = True\<rparr>"
    by code_simp
  have c2: "fst (check_headset 4300 (headsetcontrol ?e2)) = ?r"
    by code_simp
  have h: "\<not> last_available initial_state
      \<and> \<not> clock ?e1 - last_check initial_state < min_time_between_checks
      \<and> \<not> clock ?e2 - clock ?e1 < min_time_between_checks
      \<and> battery_available (fst (check_headset 4300 (headsetcontrol ?e1)))
      \<and> battery_available (fst (check_headset 4300 (headsetcontrol ?e2)))"
    unfolding c1 c2 by (simp add: initial_state_def min_time_between_checks_def)
  have k: "last_available ?s \<and> battery_available ?r" by simp
  from connect_notifies_once [of initial_state ?e1 ?e2 4300 ?s ?r "Returns ()"] h k c1
  show ?thesis by simp
qed

section \<open>The notifications of a run\<close>

lemma transition_alternating:
  assumes "alternating (last_available (fst (transition s r run)))
             (last_device_name (fst (transition s r run))) rest"
  shows "alternating (last_available s) (last_device_name s)
           (notifications (snd (transition s r run)) @ rest)"
proof -
  consider (connect) "\<not> last_available s \<and> battery_available r"
    | (disconnect) "last_available s \<and> \<not> battery_available r \<and> truthy (device_name r)"
    | (stay) "\<not> (\<not> last_available s \<and> battery_available r)
        \<and> \<not> (last_available s \<and> \<not> battery_available r \<and> truthy (device_name r))"
    by blast
  then show ?thesis
  proof cases
    case connect
    with assms show ?thesis
      by (auto simp: transition_def send_notification_events)
  next
    case disconnect
    with assms show ?thesis
      by (auto simp: transition_def send_notification_events)
  next
    case stay
    with assms show ?thesis
      by (auto simp: transition_def notifications_Nil)
  qed
qed

lemma iteration_alternating:
  assumes "alternating (last_available (fst (iteration m s env)))
             (last_device_name (fst (iteration m s env))) rest"
  shows "alternating (last_available s) (last_device_name s)
           (notifications (fst (snd (iteration m s env))) @ rest)"
proof (cases "clock env - last_check s < min_time_between_checks")
  case True
  with assms show ?thesis
    by (simp add: iteration_limited notifications_def)
next
  case False
  let ?s0 = "s\<lparr>last_check := clock env\<rparr>"
  let ?r = "fst (check_headset m (headsetcontrol env))"
  from False assms have
    "alternating (last_available (fst (transition ?s0 ?r (notify_send env))))
       (last_device_name (fst (transition ?s0 ?r (notify_send env)))) rest"
    by (simp add: iteration_fresh_state)
  from transition_alternating [OF this] False show ?thesis
    by (simp add: iteration_fresh_notifications)
qed

lemma main_loop_alternating:
  "alternating (last_available s) (last_device_name s)
     (notifications (fst (snd (main_loop m s envs))))"
proof (induction envs arbitrary: s)
  case Nil
  show ?case by (simp add: notifications_Nil)
next
  case (Cons env envs)
  obtain s' evs st where it: "iteration m s env = (s', evs, st)"
    by (cases "iteration m s env") auto
  show ?case
  proof (cases st)
    case Running
    obtain s'' evs' st' where ml: "main_loop m s' envs = (s'', evs', st')"
      by (cases "main_loop m s' envs") auto
    from Cons.IH [of s'] ml
    have "alternating (last_available s') (last_device_name s') (notifications evs')" by simp
    with it iteration_alternating [of m s env "notifications evs'"]
    have "alternating (last_available s) (last_device_name s)
            (notifications evs @ notifications evs')" by simp
    with it Running ml show ?thesis by (simp add: notifications_append)
  next
    case (Terminated e)
    from it iteration_alternating [of m s env "[]"]
    have "alternating (last_available s) (last_device_name s) (notifications evs)" by simp
    with it Terminated show ?thesis by simp
  qed
qed

lemma alternating_off:
  "alternating on name ns \<Longrightarrow> k < length ns \<Longrightarrow>
   ns ! k = Notify ''Headset Turned Off'' b \<Longrightarrow>
     (k = 0 \<and> on \<and> b = turned_off_body name)
     \<or> (0 < k \<and> (\<exists>name' level.
           ns ! (k - 1) = Notify ''Headset Turned On'' (turned_on_body name' level)
           \<and> b = turned_off_body name'))"
proof (induction ns arbitrary: on name k)
  case Nil
  then show ?case by simp
next
  case (Cons e es)
  show ?case
  proof (cases k)
    case 0
    with Cons.prems show ?thesis by (auto split: if_splits)
  next
    case (Suc k')
    show ?thesis
    proof (cases on)
      case True
      with Cons.prems have alt: "alternating False name es" by simp
      from Cons.IH [OF alt, of k' ] Cons.prems Suc
      have "0 < k' \<and> (\<exists>name' level.
           es ! (k' - 1) = Notify ''Headset Turned On'' (turned_on_body name' level)
           \<and> b = turned_off_body name')" by auto
      with Suc show ?thesis by (cases k') auto
    next
      case False
      with Cons.prems obtain name' level where
        e: "e = Notify ''Headset Turned On'' (turned_on_body name' level)"
        and alt: "alternating True name' es" by auto
      from Cons.IH [OF alt, of k'] Cons.prems Suc
      have "(k' = 0 \<and> b = turned_off_body name')
         \<or> (0 < k' \<and> (\<exists>name' level.
           es ! (k' - 1) = Notify ''Headset Turned On'' (turned_on_body name' level)
           \<and> b = turned_off_body name'))" by auto
      with Suc e show ?thesis by (cases k') auto
    qed
  qed
qed

text \<open>
  C10. The disconnect transition changes \<open>last_available\<close> to false and nothing else:
  \<open>last_device_name\<close> and \<open>last_check\<close> keep their values, and the notification names
  \<open>last_device_name\<close>. So in every run of \<^verbatim>\<open>main\<close>, a \<^verbatim>\<open>Headset Turned Off\<close> notification
  comes directly after a \<^verbatim>\<open>Headset Turned On\<close> notification and reports the name that one
  reported.
\<close>

theorem turned_off_names_turned_on:
  "(last_available s \<and> \<not> battery_available r \<and> truthy (device_name r) \<longrightarrow>
      fst (transition s r run) = s\<lparr>last_available := False\<rparr>
      \<and> notifications (snd (transition s r run))
          = [Notify ''Headset Turned Off'' (turned_off_body (last_device_name s))])
   \<and> (\<forall>k b. k < length (notifications (fst (snd (main m envs))))
         \<and> notifications (fst (snd (main m envs))) ! k = Notify ''Headset Turned Off'' b \<longrightarrow>
         0 < k \<and> (\<exists>name level.
            notifications (fst (snd (main m envs))) ! (k - 1)
              = Notify ''Headset Turned On'' (turned_on_body name level)
            \<and> b = turned_off_body name))"
proof (intro conjI impI allI)
  assume "last_available s \<and> \<not> battery_available r \<and> truthy (device_name r)"
  then show "fst (transition s r run) = s\<lparr>last_available := False\<rparr>"
    and "notifications (snd (transition s r run))
          = [Notify ''Headset Turned Off'' (turned_off_body (last_device_name s))]"
    by (simp_all add: transition_def send_notification_events)
next
  fix k b
  let ?ns = "notifications (fst (snd (main m envs)))"
  assume a: "k < length ?ns \<and> ?ns ! k = Notify ''Headset Turned Off'' b"
  have ns: "?ns = notifications (fst (snd (main_loop m initial_state envs)))"
    by (simp add: main_def notifications_def split: prod.splits)
  have "alternating False None ?ns"
    unfolding ns using main_loop_alternating [of initial_state m envs]
    by (simp add: initial_state_def)
  from alternating_off [OF this, of k b] a
  have r: "0 < k \<and> (\<exists>name level.
            ?ns ! (k - 1) = Notify ''Headset Turned On'' (turned_on_body name level)
            \<and> b = turned_off_body name)" by simp
  from r show "0 < k" by simp
  from r show "\<exists>name level.
            ?ns ! (k - 1) = Notify ''Headset Turned On'' (turned_on_body name level)
            \<and> b = turned_off_body name" by simp
qed

theorem turned_off_names_turned_on_witness:
  "notifications (fst (snd (main 4300
      [\<lparr>clock = 1, headsetcontrol = Returns ''Found HyperX Cloud! BATTERY_AVAILABLE Level: 80%'',
        notify_send = Returns (), cpu_percent = Returns 10\<rparr>,
       \<lparr>clock = 2, headsetcontrol = Returns ''Found HyperX Cloud!'',
        notify_send = Returns (), cpu_percent = Returns 10\<rparr>]))) ! 1
     = Notify ''Headset Turned Off'' (turned_off_body (Some ''HyperX Cloud''))
   \<and> (\<exists>name level.
        notifications (fst (snd (main 4300
      [\<lparr>clock = 1, headsetcontrol = Returns ''Found HyperX Cloud! BATTERY_AVAILABLE Level: 80%'',
        notify_send = Returns (), cpu_percent = Returns 10\<rparr>,
       \<lparr>clock = 2, headsetcontrol = Returns ''Found HyperX Cloud!'',
        notify_send = Returns (), cpu_percent = Returns 10\<rparr>]))) ! (1 - 1)
          = Notify ''Headset Turned On'' (turned_on_body name level)
        \<and> turned_off_body (Some ''HyperX Cloud'') = turned_off_body name)
   \<and> fst (transition
        \<lparr>last_available = True, last_device_name = Some ''HyperX Cloud'', last_check = 1\<rparr>
        \<lparr>device_name = Some ''HyperX Cloud'', battery_level = None, battery_available = False\<rparr>
        (Returns ()))
     = \<lparr>last_available = False, last_device_name = Some ''HyperX Cloud'', last_check = 1\<rparr>"
proof -
  let ?envs = "[\<lparr>clock = 1, headsetcontrol = Returns ''Found HyperX Cloud! BATTERY_AVAILABLE Level: 80%'',
        notify_send = Returns (), cpu_percent = Returns 10\<rparr>,
       \<lparr>clock = 2, headsetcontrol = Returns ''Found HyperX Cloud!'',
        notify_send = Returns (), cpu_percent = Returns 10\<rparr>]"
  let ?s = "\<lparr>last_available = True, last_device_name = Some ''HyperX Cloud'', last_check = 1\<rparr>"
  let ?r = "\<lparr>device_name = Some ''HyperX Cloud'', battery_level = None, battery_available = False\<rparr>"
  have ns: "notifications (fst (snd (main 4300 ?envs)))
      = [Notify ''Headset Turned On'' (turned_on_body (Some ''HyperX Cloud'') (Some 80)),
         Notify ''Headset Turned Off'' (turned_off_body (Some ''HyperX Cloud''))]"
    by code_simp
  have h: "last_available ?s \<and> \<not> battery_available ?r \<and> truthy (device_name ?r)" by simp
  from turned_off_names_turned_on [of ?s ?r "Returns ()" 4300 ?envs] h
  have t: "fst (transition ?s ?r (Returns ())) = ?s\<lparr>last_available := False\<rparr>"
    and a: "\<forall>k b. k < length (notifications (fst (snd (main 4300 ?envs))))
         \<and> notifications (fst (snd (main 4300 ?envs))) ! k = Notify ''Headset Turned Off'' b \<longrightarrow>
         0 < k \<and> (\<exists>name level.
            notifications (fst (snd (main 4300 ?envs))) ! (k - 1)
              = Notify ''Headset Turned On'' (turned_on_body name level)
            \<and> b = turned_off_body name)"
    by blast+
  have k: "1 < length (notifications (fst (snd (main 4300 ?envs))))
      \<and> notifications (fst (snd (main 4300 ?envs))) ! 1
          = Notify ''Headset Turned Off'' (turned_off_body (Some ''HyperX Cloud''))"
    unfolding ns by simp
  from a [rule_format, OF k] k t show ?thesis by simp
qed

section \<open>Rate limiting\<close>

lemma main_loop_Cons_events:
  "fst (snd (main_loop m s (env # envs))) =
     fst (snd (iteration m s env))
     @ (case snd (snd (iteration m s env)) of
          Running \<Rightarrow> fst (snd (main_loop m (fst (iteration m s env)) envs))
        | Terminated e \<Rightarrow> [])"
  by (auto split: prod.splits status.splits)

lemma iteration_fresh_probe:
  assumes "\<not> clock env - last_check s < min_time_between_checks"
  shows "probe_count (fst (snd (iteration m s env))) = 1"
    and "last_check (fst (iteration m s env)) = clock env"
  using assms
  by (simp_all add: iteration_fresh sleep_adaptively_result probe_count_append
        check_headset_events transition_probe_count transition_last_check)

lemma main_loop_all_limited:
  "\<forall>env\<in>set envs. clock env - last_check s < min_time_between_checks \<Longrightarrow>
     probe_count (fst (snd (main_loop m s envs))) = 0"
proof (induction envs)
  case Nil
  show ?case by (simp add: probe_count_Nil)
next
  case (Cons env envs)
  then have it: "iteration m s env = (s, [Sleep 0.01], Running)"
    by (simp add: iteration_limited)
  from Cons have "probe_count (fst (snd (main_loop m s envs))) = 0" by simp
  with it show ?case
    by (simp add: main_loop_Cons_events probe_count_append probe_count_def
          del: main_loop.simps)
qed

lemma main_loop_window:
  "\<forall>env\<in>set envs. a \<le> clock env \<and> clock env < a + 0.1 \<Longrightarrow>
     probe_count (fst (snd (main_loop m s envs))) \<le> 1"
proof (induction envs arbitrary: s)
  case Nil
  show ?case by (simp add: probe_count_Nil)
next
  case (Cons env envs)
  show ?case
  proof (cases "clock env - last_check s < min_time_between_checks")
    case True
    then have it: "iteration m s env = (s, [Sleep 0.01], Running)"
      by (simp add: iteration_limited)
    from Cons have "probe_count (fst (snd (main_loop m s envs))) \<le> 1" by simp
    with it show ?thesis
      by (simp add: main_loop_Cons_events probe_count_append probe_count_def
            del: main_loop.simps)
  next
    case False
    let ?s' = "fst (iteration m s env)"
    from False have p: "probe_count (fst (snd (iteration m s env))) = 1"
      and c: "last_check ?s' = clock env"
      by (simp_all add: iteration_fresh_probe)
    from Cons.prems c
    have "\<forall>env'\<in>set envs. clock env' - last_check ?s' < min_time_between_checks"
      by (auto simp: min_time_between_checks_def)
    then have "probe_count (fst (snd (main_loop m ?s' envs))) = 0"
      by (rule main_loop_all_limited)
    with p show ?thesis
      by (simp add: main_loop_Cons_events probe_count_append probe_count_Nil
            split: status.splits del: main_loop.simps)
  qed
qed

text \<open>
  C7. In a pass that finds less than 0.1 seconds between the clock and the time of the
  last probe, the loop sleeps 10 ms and starts over: the state is unchanged, the status
  command is not invoked and there is no adaptive sleep. So over any run whose clock
  readings all lie in one window shorter than 0.1 seconds, the status command is invoked
  at most once. (Times are real numbers here; the clock is the value \<^verbatim>\<open>time.time()\<close>
  returned at the start of the pass.)
\<close>

theorem rate_limit:
  "(clock env - last_check s < 0.1 \<longrightarrow> iteration m s env = (s, [Sleep 0.01], Running))
   \<and> ((\<forall>env'\<in>set envs. a \<le> clock env' \<and> clock env' < a + 0.1) \<longrightarrow>
        probe_count (fst (snd (main_loop m s' envs))) \<le> 1)"
proof (intro conjI impI)
  assume "clock env - last_check s < 0.1"
  then show "iteration m s env = (s, [Sleep 0.01], Running)"
    by (simp add: iteration_limited min_time_between_checks_def)
next
  assume "\<forall>env'\<in>set envs. a \<le> clock env' \<and> clock env' < a + 0.1"
  then show "probe_count (fst (snd (main_loop m s' envs))) \<le> 1"
    by (rule main_loop_window)
qed

theorem rate_limit_witness:
  "iteration 4300 \<lparr>last_available = False, last_device_name = None, last_check = 100\<rparr>
      \<lparr>clock = 100.05, headsetcontrol = Returns ''Found X! BATTERY_AVAILABLE'',
       notify_send = Returns (), cpu_percent = Returns 10\<rparr>
     = (\<lparr>last_available = False, last_device_name = None, last_check = 100\<rparr>,
        [Sleep 0.01], Running)
   \<and> probe_count (fst (snd (main_loop 4300 initial_state
        [\<lparr>clock = 100.01, headsetcontrol = Returns ''Found X! BATTERY_AVAILABLE'',
          notify_send = Returns (), cpu_percent = Returns 10\<rparr>,
         \<lparr>clock = 100.02, headsetcontrol = Returns ''Found X! BATTERY_AVAILABLE'',
          notify_send = Returns (), cpu_percent = Returns 10\<rparr>,
         \<lparr>clock = 100.09, headsetcontrol = Returns ''Found X! BATTERY_AVAILABLE'',
          notify_send = Returns (), cpu_percent = Returns 10\<rparr>]))) \<le> 1"
proof -
  let ?s = "\<lparr>last_available = False, last_device_name = None, last_check = 100\<rparr>"
  let ?env = "\<lparr>clock = 100.05, headsetcontrol = Returns ''Found X! BATTERY_AVAILABLE'',
       notify_send = Returns (), cpu_percent = Returns 10\<rparr>"
  let ?envs = "[\<lparr>clock = 100.01, headsetcontrol = Returns ''Found X! BATTERY_AVAILABLE'',
          notify_send = Returns (), cpu_percent = Returns 10\<rparr>,
         \<lparr>clock = 100.02, headsetcontrol = Returns ''Found X! BATTERY_AVAILABLE'',
          notify_send = Returns (), cpu_percent = Returns 10\<rparr>,
         \<lparr>clock = 100.09, headsetcontrol = Returns ''Found X! BATTERY_AVAILABLE'',
          notify_send = Returns (), cpu_percent = Returns 10\<rparr>]"
  have h1: "clock ?env - last_check ?s < 0.1" by simp
  have h2: "\<forall>env'\<in>set ?envs. 100 \<le> clock env' \<and> clock env' < 100 + 0.1" by simp
  from rate_limit [of ?env ?s 4300 ?envs 100 initial_state] h1 h2
  show ?thesis by blast
qed

section \<open>Exceptions\<close>

lemma sleep_adaptively_returns:
  "sleep_adaptively s evs (Returns c) = (s, evs @ [Sleep (if 20 < c then 0.5 else 0.1)], Running)"
  by (simp add: sleep_adaptively_def adaptive_sleep_def)

lemma sleep_adaptively_raises:
  "sleep_adaptively s evs (Raises e) = (s, evs, Terminated e)"
  by (simp add: sleep_adaptively_def adaptive_sleep_def)

lemma check_headset_no_notify: "Notify t b \<notin> set (snd (check_headset m run))"
proof -
  have "Notify t b \<notin> set (snd (probe_failed e))" for e by (cases e) simp_all
  then show ?thesis
    by (auto simp: check_headset_def split: outcome.splits)
qed

lemma transition_notify_raises:
  "Notify t b \<in> set (snd (transition s r (Raises e))) \<Longrightarrow>
     LogError (''Error sending notification: '' @ str_exception e)
       \<in> set (snd (transition s r (Raises e)))"
  by (auto simp: transition_def send_notification_def split: if_splits)

lemma iteration_notify_raises:
  assumes "notify_send env = Raises e"
    and "Notify t b \<in> set (fst (snd (iteration m s env)))"
  shows "LogError (''Error sending notification: '' @ str_exception e)
       \<in> set (fst (snd (iteration m s env)))"
proof (cases "clock env - last_check s < min_time_between_checks")
  case True
  with assms show ?thesis by (simp add: iteration_limited)
next
  case False
  let ?tr = "transition (s\<lparr>last_check := clock env\<rparr>)
      (fst (check_headset m (headsetcontrol env))) (Raises e)"
  have ev: "set (fst (snd (iteration m s env)))
      \<subseteq> set (snd (check_headset m (headsetcontrol env))) \<union> set (snd ?tr) \<union> range Sleep"
    and sub: "set (snd ?tr) \<subseteq> set (fst (snd (iteration m s env)))"
    using False assms(1)
    by (cases "cpu_percent env";
        auto simp: iteration_fresh sleep_adaptively_returns sleep_adaptively_raises)+
  from ev assms(2) check_headset_no_notify have "Notify t b \<in> set (snd ?tr)" by auto
  from transition_notify_raises [OF this] sub show ?thesis by auto
qed

lemma iteration_probe_raises:
  assumes "\<not> clock env - last_check s < min_time_between_checks"
    and "headsetcontrol env = Raises (OtherException msg)"
  shows "LogError (''Error checking headset: '' @ msg) \<in> set (fst (snd (iteration m s env)))"
  using assms
  by (cases "cpu_percent env")
     (simp_all add: iteration_fresh sleep_adaptively_returns sleep_adaptively_raises
        check_headset_def)

lemma iteration_running:
  "cpu_percent env = Returns c \<Longrightarrow> snd (snd (iteration m s env)) = Running"
  by (cases "clock env - last_check s < min_time_between_checks")
     (simp_all add: iteration_limited iteration_fresh sleep_adaptively_returns)

lemma main_loop_running:
  "\<forall>env\<in>set envs. \<exists>c. cpu_percent env = Returns c \<Longrightarrow>
     snd (snd (main_loop m s envs)) = Running"
proof (induction envs arbitrary: s)
  case Nil
  show ?case by simp
next
  case (Cons env envs)
  then obtain c where "cpu_percent env = Returns c" by auto
  then have r: "snd (snd (iteration m s env)) = Running" by (rule iteration_running)
  from Cons have "snd (snd (main_loop m (fst (iteration m s env)) envs)) = Running" by simp
  with r show ?case by (auto split: prod.splits status.splits)
qed

text \<open>
  C2, as the code has it. An exception that the status command or the notification
  command raises during a pass is handled where it is raised, by the prober (which logs
  it unless it is a \<^verbatim>\<open>CalledProcessError\<close>) or by the notifier (which logs it); the pass goes
  on to the adaptive sleep, and it ends with the loop still running whenever the CPU
  sample returns. The CPU sample is taken outside the \<^verbatim>\<open>try\<close> statement: when it raises,
  the exception leaves \<^verbatim>\<open>main\<close>. A run in which no CPU sample raises never ends by itself.
\<close>

theorem exceptions_of_a_pass:
  "(cpu_percent env = Returns c \<longrightarrow> snd (snd (iteration m s env)) = Running)
   \<and> (\<not> clock env - last_check s < min_time_between_checks \<and> cpu_percent env = Returns c \<longrightarrow>
        (\<exists>evs. fst (snd (iteration m s env)) = evs @ [Sleep (if 20 < c then 0.5 else 0.1)]))
   \<and> (\<not> clock env - last_check s < min_time_between_checks
        \<and> headsetcontrol env = Raises (OtherException msg) \<longrightarrow>
        LogError (''Error checking headset: '' @ msg) \<in> set (fst (snd (iteration m s env))))
   \<and> (notify_send env = Raises e \<and> Notify t b \<in> set (fst (snd (iteration m s env))) \<longrightarrow>
        LogError (''Error sending notification: '' @ str_exception e)
          \<in> set (fst (snd (iteration m s env))))
   \<and> (\<not> clock env - last_check s < min_time_between_checks \<and> cpu_percent env = Raises e' \<longrightarrow>
        snd (snd (iteration m s env)) = Terminated e')
   \<and> ((\<forall>env'\<in>set envs. \<exists>c'. cpu_percent env' = Returns c') \<longrightarrow>
        snd (snd (main_loop m s' envs)) = Running)"
proof (intro conjI impI)
  assume "cpu_percent env = Returns c"
  then show "snd (snd (iteration m s env)) = Running" by (rule iteration_running)
next
  assume "\<not> clock env - last_check s < min_time_between_checks \<and> cpu_percent env = Returns c"
  then show "\<exists>evs. fst (snd (iteration m s env)) = evs @ [Sleep (if 20 < c then 0.5 else 0.1)]"
    by (simp add: iteration_fresh sleep_adaptively_returns)
next
  assume "\<not> clock env - last_check s < min_time_between_checks
        \<and> headsetcontrol env = Raises (OtherException msg)"
  then show "LogError (''Error checking headset: '' @ msg) \<in> set (fst (snd (iteration m s env)))"
    using iteration_probe_raises by blast
next
  assume "notify_send env = Raises e \<and> Notify t b \<in> set (fst (snd (iteration m s env)))"
  then show "LogError (''Error sending notification: '' @ str_exception e)
          \<in> set (fst (snd (iteration m s env)))"
    using iteration_notify_raises by blast
next
  assume "\<not> clock env - last_check s < min_time_between_checks \<and> cpu_percent env = Raises e'"
  then show "snd (snd (iteration m s env)) = Terminated e'"
    by (simp add: iteration_fresh sleep_adaptively_raises)
next
  assume "\<forall>env'\<in>set envs. \<exists>c'. cpu_percent env' = Returns c'"
  then show "snd (snd (main_loop m s' envs)) = Running" by (rule main_loop_running)
qed

theorem exceptions_of_a_pass_witness:
  "snd (snd (iteration 4300 initial_state
      \<lparr>clock = 1, headsetcontrol = Raises (OtherException ''No such file''),
       notify_send = Returns (), cpu_percent = Returns 10\<rparr>)) = Running
   \<and> (\<exists>evs. fst (snd (iteration 4300 initial_state
      \<lparr>clock = 1, headsetcontrol = Raises (OtherException ''No such file''),
       notify_send = Returns (), cpu_percent = Returns 10\<rparr>)) = evs @ [Sleep 0.1])
   \<and> LogError (''Error checking headset: '' @ ''No such file'')
       \<in> set (fst (snd (iteration 4300 initial_state
      \<lparr>clock = 1, headsetcontrol = Raises (OtherException ''No such file''),
       notify_send = Returns (), cpu_percent = Returns 10\<rparr>)))
   \<and> LogError (''Error sending notification: '' @ ''No such file'')
       \<in> set (fst (snd (iteration 4300 initial_state
      \<lparr>clock = 1, headsetcontrol = Returns ''Found X! BATTERY_AVAILABLE'',
       notify_send = Raises (OtherException ''No such file''), cpu_percent = Returns 10\<rparr>)))
   \<and> snd (snd (iteration 4300 initial_state
      \<lparr>clock = 1, headsetcontrol = Returns ''No device'',
       notify_send = Returns (), cpu_percent = Raises (OtherException ''no /proc/stat'')\<rparr>))
       = Terminated (OtherException ''no /proc/stat'')
   \<and> snd (snd (main_loop 4300 initial_state
      [\<lparr>clock = 1, headsetcontrol = Raises (OtherException ''No such file''),
        notify_send = Returns (), cpu_percent = Returns 10\<rparr>,
       \<lparr>clock = 2, headsetcontrol = Returns ''Found X! BATTERY_AVAILABLE'',
        notify_send = Raises (OtherException ''No such file''), cpu_percent = Returns 10\<rparr>]))
       = Running"
proof -
  let ?a = "\<lparr>clock = 1, headsetcontrol = Raises (OtherException ''No such file''),
       notify_send = Returns (), cpu_percent = Returns 10\<rparr>"
  let ?b = "\<lparr>clock = 1, headsetcontrol = Returns ''Found X! BATTERY_AVAILABLE'',
       notify_send = Raises (OtherException ''No such file''), cpu_percent = Returns 10\<rparr>"
  let ?b2 = "\<lparr>clock = 2, headsetcontrol = Returns ''Found X! BATTERY_AVAILABLE'',
       notify_send = Raises (OtherException ''No such file''), cpu_percent = Returns 10\<rparr>"
  let ?c = "\<lparr>clock = 1, headsetcontrol = Returns ''No device'',
       notify_send = Returns (), cpu_percent = Raises (OtherException ''no /proc/stat'')\<rparr>"
  have fresh: "\<not> clock ?a - last_check initial_state < min_time_between_checks"
    "\<not> clock ?b - last_check initial_state < min_time_between_checks"
    "\<not> clock ?c - last_check initial_state < min_time_between_checks"
    by (simp_all add: initial_state_def min_time_between_checks_def)
  have sent: "Notify ''Headset Turned On'' (turned_on_body (Some ''X'') None)
      \<in> set (fst (snd (iteration 4300 initial_state ?b)))"
    by code_simp
  have all: "\<forall>env'\<in>set [?a, ?b2]. \<exists>c'. cpu_percent env' = Returns c'" by simp
  from exceptions_of_a_pass
         [of ?a 10 4300 initial_state "''No such file''" "OtherException ''x''" "[]" "[]"
             "OtherException ''x''" "[?a, ?b2]" initial_state] fresh(1) all
  have 1: "snd (snd (iteration 4300 initial_state ?a)) = Running"
    and 2: "\<exists>evs. fst (snd (iteration 4300 initial_state ?a)) = evs @ [Sleep 0.1]"
    and 3: "LogError (''Error checking headset: '' @ ''No such file'')
       \<in> set (fst (snd (iteration 4300 initial_state ?a)))"
    and 6: "snd (snd (main_loop 4300 initial_state [?a, ?b2])) = Running"
    by simp_all
  from exceptions_of_a_pass
         [of ?b 10 4300 initial_state "[]" "OtherException ''No such file''"
             "''Headset Turned On''" "turned_on_body (Some ''X'') None"
             "OtherException ''x''" "[]" initial_state] sent
  have 4: "LogError (''Error sending notification: '' @ ''No such file'')
       \<in> set (fst (snd (iteration 4300 initial_state ?b)))"
    by simp
  from exceptions_of_a_pass
         [of ?c 10 4300 initial_state "[]" "OtherException ''x''" "[]" "[]"
             "OtherException ''no /proc/stat''" "[]" initial_state] fresh(3)
  have 5: "snd (snd (iteration 4300 initial_state ?c))
       = Terminated (OtherException ''no /proc/stat'')"
    by simp
  from 1 2 3 4 5 6 show ?thesis by blast
qed

text \<open>
  C2 as stated fails: when \<^verbatim>\<open>psutil.cpu_percent\<close> raises in the first pass, nothing catches
  and nothing logs the exception, \<^verbatim>\<open>main\<close> ends with it, and the second pass never happens.
\<close>

theorem cpu_sampling_error_ends_main:
  "main 4300
     [\<lparr>clock = 1, headsetcontrol = Returns ''No device'', notify_send = Returns (),
       cpu_percent = Raises (OtherException ''cannot read /proc/stat'')\<rparr>,
      \<lparr>clock = 2, headsetcontrol = Returns ''No device'', notify_send = Returns (),
       cpu_percent = Returns 10\<rparr>]
   = (\<lparr>last_available = False, last_device_name = None, last_check = 1\<rparr>,
      [LogInfo ''Starting wireless headset monitor...'', Probe],
      Terminated (OtherException ''cannot read /proc/stat''))"
  by code_simp

section \<open>Stripping and the searches\<close>

text \<open>
  Neither pattern can begin at a whitespace character or reach its end inside trailing
  whitespace, so the searches find the same in the stripped text as in the text itself.
\<close>

lemma space_not_mark:
  "is_space c \<Longrightarrow> c \<noteq> CHR ''F'' \<and> c \<noteq> CHR ''L'' \<and> c \<noteq> CHR ''!'' \<and> c \<noteq> CHR ''%''
     \<and> \<not> is_digit c"
  by (auto simp: is_space_def is_digit_def)

lemma match_found_at_space: "is_space c \<Longrightarrow> match_found_at (c # cs) = None"
  by (auto simp: match_found_at_def dest: space_not_mark)

lemma match_level_at_space: "is_space c \<Longrightarrow> match_level_at (c # cs) = None"
  by (auto simp: match_level_at_def dest: space_not_mark)

lemma search_found_dropWhile: "search_found (dropWhile is_space s) = search_found s"
  by (induction s) (simp_all add: match_found_at_space)

lemma search_level_dropWhile: "search_level (dropWhile is_space s) = search_level s"
  by (induction s) (simp_all add: match_level_at_space)

lemma lazy_until_bang_spaces: "\<forall>c\<in>set ws. is_space c \<Longrightarrow> lazy_until_bang ws = None"
  by (induction ws) (auto dest: space_not_mark)

lemma lazy_until_bang_append_spaces:
  "\<forall>c\<in>set ws. is_space c \<Longrightarrow> lazy_until_bang (r @ ws) = lazy_until_bang r"
  by (induction r) (simp_all add: lazy_until_bang_spaces)

lemma prefix_append_cases:
  assumes "prefix p (s @ ws)" and "\<not> prefix p s" and "length p = n"
  shows "\<exists>k. drop n (s @ ws) = drop k ws"
proof -
  from assms obtain us where "p = s @ us" by (auto simp: prefix_append)
  with assms(3) have "drop n (s @ ws) = drop (length us) ws" by auto
  then show ?thesis by blast
qed

lemma match_found_at_append_spaces:
  assumes "\<forall>c\<in>set ws. is_space c"
  shows "match_found_at (s @ ws) = match_found_at s"
proof (cases "prefix ''Found '' s")
  case True
  then obtain r where "s = ''Found '' @ r" by (auto simp: prefix_def)
  with assms show ?thesis
    by (simp add: match_found_at_def lazy_until_bang_append_spaces)
next
  case False
  show ?thesis
  proof (cases "prefix ''Found '' (s @ ws)")
    case True
    have "length ''Found '' = 6" by simp
    from prefix_append_cases [OF True False this]
    obtain k where k: "drop 6 (s @ ws) = drop k ws" by blast
    from assms have "\<forall>c\<in>set (drop k ws). is_space c" by (auto dest: in_set_dropD)
    then have "lazy_until_bang (drop k ws) = None" by (rule lazy_until_bang_spaces)
    with k False True show ?thesis by (simp add: match_found_at_def)
  next
    case no: False
    with False show ?thesis by (simp add: match_found_at_def)
  qed
qed

lemma search_found_spaces: "\<forall>c\<in>set ws. is_space c \<Longrightarrow> search_found ws = None"
  by (induction ws) (simp_all add: match_found_at_space)

lemma search_found_append_spaces:
  "\<forall>c\<in>set ws. is_space c \<Longrightarrow> search_found (s @ ws) = search_found s"
proof (induction s)
  case Nil
  then show ?case by (simp add: search_found_spaces)
next
  case (Cons c cs)
  from Cons.prems have "match_found_at ((c # cs) @ ws) = match_found_at (c # cs)"
    by (rule match_found_at_append_spaces)
  with Cons show ?case by (simp split: option.split)
qed

lemma spaces_no_digit:
  assumes "\<forall>c\<in>set ws. is_space c"
  shows "takeWhile is_digit ws = []" and "\<not> prefix ''%'' ws"
proof -
  show "takeWhile is_digit ws = []"
  proof (cases ws)
    case (Cons c cs)
    with assms have "is_space c" by simp
    then have "\<not> is_digit c" by (simp add: space_not_mark)
    with Cons show ?thesis by simp
  qed simp
  show "\<not> prefix ''%'' ws"
  proof (cases ws)
    case (Cons c cs)
    with assms have "is_space c" by simp
    then have "c \<noteq> CHR ''%''" by (simp add: space_not_mark)
    with Cons show ?thesis by simp
  qed simp
qed

lemma digits_then_spaces:
  assumes "\<forall>c\<in>set ws. is_space c"
  shows "(takeWhile is_digit (r @ ws) \<noteq> [] \<and> prefix ''%'' (dropWhile is_digit (r @ ws)))
       = (takeWhile is_digit r \<noteq> [] \<and> prefix ''%'' (dropWhile is_digit r))"
proof (cases "\<forall>c\<in>set r. is_digit c")
  case True
  then have e: "dropWhile is_digit r = []" by simp
  from True have "dropWhile is_digit (r @ ws) = dropWhile is_digit ws"
    by (simp add: dropWhile_append2)
  moreover have "dropWhile is_digit ws = ws"
    using spaces_no_digit(1) [OF assms] by (cases ws) (auto split: if_splits)
  ultimately have a: "\<not> prefix ''%'' (dropWhile is_digit (r @ ws))"
    using spaces_no_digit(2) [OF assms] by simp
  have b: "\<not> prefix ''%'' (dropWhile is_digit r)" unfolding e by simp
  from a b show ?thesis by blast
next
  case False
  then obtain c where c: "c \<in> set r" "\<not> is_digit c" by blast
  then have t: "takeWhile is_digit (r @ ws) = takeWhile is_digit r"
    and d: "dropWhile is_digit (r @ ws) = dropWhile is_digit r @ ws"
    by (simp_all add: takeWhile_append1 dropWhile_append1)
  from c have "dropWhile is_digit r \<noteq> []" by auto
  then obtain x xs where "dropWhile is_digit r = x # xs"
    by (cases "dropWhile is_digit r") auto
  with t d show ?thesis by simp
qed

lemma digits_then_spaces_group:
  assumes "prefix ''%'' (dropWhile is_digit r)"
  shows "takeWhile is_digit (r @ ws) = takeWhile is_digit r"
proof -
  have "dropWhile is_digit r \<noteq> []"
  proof
    assume "dropWhile is_digit r = []"
    with assms show False by simp
  qed
  then obtain c where "c \<in> set r" "\<not> is_digit c" by auto
  then show ?thesis by (simp add: takeWhile_append1)
qed

lemma match_level_at_append_spaces:
  assumes "\<forall>c\<in>set ws. is_space c"
  shows "match_level_at (s @ ws) = match_level_at s"
proof (cases "prefix ''Level: '' s")
  case True
  then obtain r where r: "s = ''Level: '' @ r" by (auto simp: prefix_def)
  show ?thesis
  proof (cases "prefix ''%'' (dropWhile is_digit r)")
    case True
    from digits_then_spaces [OF assms, of r] digits_then_spaces_group [OF True, of ws] r
    show ?thesis by (simp add: match_level_at_def Let_def)
  next
    case False
    with digits_then_spaces [OF assms, of r] r
    show ?thesis by (simp add: match_level_at_def Let_def)
  qed
next
  case False
  show ?thesis
  proof (cases "prefix ''Level: '' (s @ ws)")
    case True
    have "length ''Level: '' = 7" by simp
    from prefix_append_cases [OF True False this]
    obtain k where k: "drop 7 (s @ ws) = drop k ws" by blast
    from assms have "\<forall>c\<in>set (drop k ws). is_space c" by (auto dest: in_set_dropD)
    then have "takeWhile is_digit (drop k ws) = []"
      by (cases "drop k ws") (auto dest: space_not_mark)
    with k False True show ?thesis by (simp add: match_level_at_def Let_def)
  next
    case no: False
    with False show ?thesis by (simp add: match_level_at_def)
  qed
qed

lemma search_level_spaces: "\<forall>c\<in>set ws. is_space c \<Longrightarrow> search_level ws = None"
  by (induction ws) (simp_all add: match_level_at_space)

lemma search_level_append_spaces:
  "\<forall>c\<in>set ws. is_space c \<Longrightarrow> search_level (s @ ws) = search_level s"
proof (induction s)
  case Nil
  then show ?case by (simp add: search_level_spaces)
next
  case (Cons c cs)
  from Cons.prems have "match_level_at ((c # cs) @ ws) = match_level_at (c # cs)"
    by (rule match_level_at_append_spaces)
  with Cons show ?case by (simp split: option.split)
qed

lemma dropWhile_strip:
  "\<exists>ws. (\<forall>c\<in>set ws. is_space c) \<and> dropWhile is_space s = py_strip s @ ws"
proof -
  let ?d = "dropWhile is_space s"
  have "rev ?d = takeWhile is_space (rev ?d) @ dropWhile is_space (rev ?d)" by simp
  then have "?d = py_strip s @ rev (takeWhile is_space (rev ?d))"
    unfolding py_strip_def by (metis rev_append rev_rev_ident)
  moreover have "\<forall>c\<in>set (rev (takeWhile is_space (rev ?d))). is_space c"
    by (auto dest: set_takeWhileD)
  ultimately show ?thesis by blast
qed

lemma search_found_strip: "search_found (py_strip s) = search_found s"
proof -
  from dropWhile_strip obtain ws where
    "\<forall>c\<in>set ws. is_space c" "dropWhile is_space s = py_strip s @ ws" by blast
  then show ?thesis
    by (metis search_found_append_spaces search_found_dropWhile)
qed

lemma search_level_strip: "search_level (py_strip s) = search_level s"
proof -
  from dropWhile_strip obtain ws where
    "\<forall>c\<in>set ws. is_space c" "dropWhile is_space s = py_strip s @ ws" by blast
  then show ?thesis
    by (metis search_level_append_spaces search_level_dropWhile)
qed

section \<open>The first match\<close>

text \<open>\<open>first_at\<close> over the positions before \<open>i\<close>, for evaluation.\<close>

lemma first_at_upt [code]:
  "first_at p s i = (prefix p (drop i s) \<and> list_all (\<lambda>j. \<not> prefix p (drop j s)) [0..<i])"
  by (auto simp: first_at_def list_all_iff)

lemma sublist_dropWhile:
  assumes "sublist p s" and "p \<noteq> []" and "\<not> P (hd p)"
  shows "sublist p (dropWhile P s)"
proof -
  from assms(1) obtain a b where s: "s = a @ p @ b" by (auto simp: sublist_def)
  from assms(2) obtain x xs where p: "p = x # xs" by (cases p) auto
  with assms(3) have x: "\<not> P x" by simp
  show ?thesis
  proof (cases "\<forall>c\<in>set a. P c")
    case True
    with x p s have "dropWhile P s = p @ b" by (simp add: dropWhile_append2)
    then show ?thesis by simp
  next
    case False
    then obtain c where "c \<in> set a" "\<not> P c" by blast
    with s have "dropWhile P s = dropWhile P a @ p @ b" by (simp add: dropWhile_append1)
    then show ?thesis by simp
  qed
qed

lemma sublist_strip:
  assumes "sublist p s" and "p \<noteq> []" and "\<not> is_space (hd p)" and "\<not> is_space (last p)"
  shows "sublist p (py_strip s)"
proof -
  from assms(1-3) have "sublist p (dropWhile is_space s)" by (rule sublist_dropWhile)
  then have "sublist (rev p) (rev (dropWhile is_space s))" by (simp add: sublist_rev)
  moreover from assms(2) have "rev p \<noteq> []" by simp
  moreover from assms(2,4) have "\<not> is_space (hd (rev p))" by (simp add: hd_rev)
  ultimately have "sublist (rev p) (dropWhile is_space (rev (dropWhile is_space s)))"
    by (rule sublist_dropWhile)
  then have "sublist (rev (rev p)) (rev (dropWhile is_space (rev (dropWhile is_space s))))"
    by (simp only: sublist_rev)
  then show ?thesis by (simp add: py_strip_def)
qed

lemma lazy_until_bang_complete:
  "CHR ''!'' \<notin> set x \<Longrightarrow> line_feed \<notin> set x \<Longrightarrow> lazy_until_bang (x @ CHR ''!'' # post) = Some x"
  by (induction x) auto

lemma search_found_first:
  "first_at ''Found '' s i \<Longrightarrow> drop (i + 6) s = x @ ''!'' @ post \<Longrightarrow>
   CHR ''!'' \<notin> set x \<Longrightarrow> line_feed \<notin> set x \<Longrightarrow> search_found s = Some x"
proof (induction i arbitrary: s)
  case 0
  then have p: "prefix ''Found '' s" and d: "drop 6 s = x @ ''!'' @ post"
    by (simp_all add: first_at_def)
  from p obtain c cs where s: "s = c # cs" by (cases s) auto
  from p d 0 have "match_found_at s = Some x"
    by (simp add: match_found_at_def lazy_until_bang_complete)
  with s show ?case by simp
next
  case (Suc i)
  from Suc.prems(1) have n: "\<not> prefix ''Found '' s" and p: "prefix ''Found '' (drop (Suc i) s)"
    by (auto simp: first_at_def)
  from p obtain c cs where s: "s = c # cs" by (cases s) auto
  from Suc.prems(1) s have "first_at ''Found '' cs i"
    by (auto simp: first_at_def)
  moreover have "drop (i + 6) cs = x @ ''!'' @ post"
  proof -
    from Suc.prems(2) have "drop (Suc (i + 6)) s = x @ ''!'' @ post" by (simp only: add_Suc)
    then show ?thesis unfolding s by (simp only: drop_Suc_Cons)
  qed
  ultimately have r: "search_found cs = Some x" using Suc.prems(3,4) by (rule Suc.IH)
  from n have "match_found_at s = None" by (simp add: match_found_at_def)
  then have "match_found_at (c # cs) = None" unfolding s .
  with r show ?case unfolding s by simp
qed

lemma search_level_first:
  "first_at ''Level: '' s j \<Longrightarrow> drop (j + 7) s = ds @ ''%'' @ post \<Longrightarrow>
   ds \<noteq> [] \<Longrightarrow> \<forall>c\<in>set ds. is_digit c \<Longrightarrow> search_level s = Some ds"
proof (induction j arbitrary: s)
  case 0
  then have p: "prefix ''Level: '' s" and d: "drop 7 s = ds @ ''%'' @ post"
    by (simp_all add: first_at_def)
  from p obtain c cs where s: "s = c # cs" by (cases s) auto
  have pc: "\<not> is_digit CHR ''%''" by (simp add: is_digit_def)
  from 0(4) pc have "takeWhile is_digit (ds @ ''%'' @ post) = ds"
    and "dropWhile is_digit (ds @ ''%'' @ post) = ''%'' @ post"
    by (simp_all add: takeWhile_append2 dropWhile_append2)
  with p d 0(3) have "match_level_at s = Some ds"
    by (simp add: match_level_at_def Let_def)
  with s show ?case by simp
next
  case (Suc j)
  from Suc.prems(1) have n: "\<not> prefix ''Level: '' s" and p: "prefix ''Level: '' (drop (Suc j) s)"
    by (auto simp: first_at_def)
  from p obtain c cs where s: "s = c # cs" by (cases s) auto
  from Suc.prems(1) s have "first_at ''Level: '' cs j"
    by (auto simp: first_at_def)
  moreover have "drop (j + 7) cs = ds @ ''%'' @ post"
  proof -
    from Suc.prems(2) have "drop (Suc (j + 7)) s = ds @ ''%'' @ post" by (simp only: add_Suc)
    then show ?thesis unfolding s by (simp only: drop_Suc_Cons)
  qed
  ultimately have r: "search_level cs = Some ds" using Suc.prems(3,4) by (rule Suc.IH)
  from n have "match_level_at s = None" by (simp add: match_level_at_def)
  then have "match_level_at (c # cs) = None" unfolding s .
  with r show ?case unfolding s by simp
qed

lemma py_int_57: "py_int m ''57'' = Returns 57"
  by (simp add: py_int_def decimal_value_def digit_value_def)

text \<open>
  C3, as the code has it. When the first occurrence of \<^verbatim>\<open>Found \<close> in the output is followed
  by a name and \<^verbatim>\<open>!\<close>, the name holding no \<^verbatim>\<open>!\<close> and no line feed, when the output contains
  \<^verbatim>\<open>BATTERY_AVAILABLE\<close>, and when the first occurrence of \<^verbatim>\<open>Level: \<close> is followed by
  \<^verbatim>\<open>57%\<close>, the prober returns that name, the level 57 and \<open>battery_available\<close> true.
\<close>

theorem probe_first_matches:
  assumes "first_at ''Found '' out i"
    and "drop (i + 6) out = x @ ''!'' @ post"
    and "CHR ''!'' \<notin> set x" and "line_feed \<notin> set x"
    and "sublist ''BATTERY_AVAILABLE'' out"
    and "first_at ''Level: '' out j"
    and "drop (j + 7) out = ''57%'' @ post'"
  shows "check_headset m (Returns out)
     = (\<lparr>device_name = Some x, battery_level = Some 57, battery_available = True\<rparr>, [Probe])"
proof -
  from assms(1-4) have f: "search_found (py_strip out) = Some x"
    by (simp add: search_found_strip search_found_first)
  have "is_digit CHR ''5''" "is_digit CHR ''7''" by (simp_all add: is_digit_def)
  with assms(6) assms(7) have "search_level out = Some ''57''"
    using search_level_first [of out j "''57''" post'] by simp
  then have l: "search_level (py_strip out) = Some ''57''" by (simp add: search_level_strip)
  have "\<not> is_space CHR ''B''" "\<not> is_space CHR ''E''" by (simp_all add: is_space_def)
  with assms(5) have b: "sublist ''BATTERY_AVAILABLE'' (py_strip out)"
    using sublist_strip [of "''BATTERY_AVAILABLE''" out] by simp
  from f l b show ?thesis
    by (simp add: check_headset_def parse_status_def py_int_57)
qed

theorem probe_first_matches_witness:
  "first_at ''Found '' ''Found Arctis 7!\<newline>Status: BATTERY_AVAILABLE\<newline>Level: 57%\<newline>'' 0
   \<and> CHR ''!'' \<notin> set ''Arctis 7'' \<and> line_feed \<notin> set ''Arctis 7''
   \<and> sublist ''BATTERY_AVAILABLE''
        ''Found Arctis 7!\<newline>Status: BATTERY_AVAILABLE\<newline>Level: 57%\<newline>''
   \<and> first_at ''Level: '' ''Found Arctis 7!\<newline>Status: BATTERY_AVAILABLE\<newline>Level: 57%\<newline>'' 42
   \<and> check_headset 4300
        (Returns ''Found Arctis 7!\<newline>Status: BATTERY_AVAILABLE\<newline>Level: 57%\<newline>'')
     = (\<lparr>device_name = Some ''Arctis 7'', battery_level = Some 57, battery_available = True\<rparr>,
        [Probe])"
proof -
  let ?out = "''Found Arctis 7!\<newline>Status: BATTERY_AVAILABLE\<newline>Level: 57%\<newline>''"
  have h1: "first_at ''Found '' ?out 0" by code_simp
  have h2: "drop (0 + 6) ?out
      = ''Arctis 7'' @ ''!'' @ ''\<newline>Status: BATTERY_AVAILABLE\<newline>Level: 57%\<newline>''"
    by simp
  have h3: "CHR ''!'' \<notin> set ''Arctis 7''" by simp
  have h4: "line_feed \<notin> set ''Arctis 7''" by (simp add: line_feed_def)
  have h5: "sublist ''BATTERY_AVAILABLE'' ?out" by code_simp
  have h6: "first_at ''Level: '' ?out 42" by code_simp
  have h7: "drop (42 + 7) ?out = ''57%'' @ ''\<newline>''" by simp
  from probe_first_matches [OF h1 h2 h3 h4 h5 h6 h7, of 4300] h1 h3 h4 h5 h6
  show ?thesis by blast
qed

text \<open>
  C3 as stated fails: both searches stop at their leftmost match. An output that
  contains \<^verbatim>\<open>Found X!\<close>, \<^verbatim>\<open>BATTERY_AVAILABLE\<close> and \<^verbatim>\<open>Level: 57%\<close>, but announces another
  device first, gives the other device's name.
\<close>

theorem probe_first_found_wins:
  "sublist ''Found X!'' ''Found A! Found X! BATTERY_AVAILABLE Level: 57%''
   \<and> sublist ''BATTERY_AVAILABLE'' ''Found A! Found X! BATTERY_AVAILABLE Level: 57%''
   \<and> sublist ''Level: 57%'' ''Found A! Found X! BATTERY_AVAILABLE Level: 57%''
   \<and> check_headset 4300 (Returns ''Found A! Found X! BATTERY_AVAILABLE Level: 57%'')
     = (\<lparr>device_name = Some ''A'', battery_level = Some 57, battery_available = True\<rparr>,
        [Probe])"
  by code_simp

end
